theory Spec2Isabelle
  imports Main "HOL-Library.Sublist"
begin

section \<open>String primitives of the JavaScript runtime\<close>

text \<open>
  \<^verbatim>\<open>String.prototype.startsWith\<close>, \<^verbatim>\<open>String.prototype.includes\<close> (named
  \<open>includesStr\<close> here) and \<^verbatim>\<open>Array.prototype.join('')\<close>, on strings as character
  lists. The argument order is the source's: receiver first, pattern second.
\<close>

fun startsWith :: "string \<Rightarrow> string \<Rightarrow> bool" where
  "startsWith s [] = True"
| "startsWith [] (p # ps) = False"
| "startsWith (c # cs) (p # ps) = (c = p \<and> startsWith cs ps)"

fun includesStr :: "string \<Rightarrow> string \<Rightarrow> bool" where
  "includesStr [] pat = startsWith [] pat"
| "includesStr (c # cs) pat = (startsWith (c # cs) pat \<or> includesStr cs pat)"

definition join :: "string list \<Rightarrow> string" where
  "join record = concat record"

section \<open>The resolver capability\<close>

text \<open>
  \<^verbatim>\<open>require('dns').promises\<close>: a lookup either resolves to its answer or rejects with
  an error (the codes below are those of a missing name and of a failing or silent
  server). A TXT answer is a list of records, each record a list of chunks.
\<close>

datatype dns_error = ENODATA | ENOTFOUND | ESERVFAIL | ETIMEOUT

record mx_record =
  exchange :: string
  priority :: nat

record resolver =
  resolveMx :: "string \<Rightarrow> dns_error + mx_record list"
  resolveTxt :: "string \<Rightarrow> dns_error + string list list"

text \<open>The resolver calls a run issues, in the order it issues them.\<close>

datatype query = MxQuery string | TxtQuery string

section \<open>The service tool: \<^verbatim>\<open>dnsStatus\<close> of adminOperations.js\<close>

datatype verdict = Unknown | Pass | Warn | Fail

text \<open>An element of \<^verbatim>\<open>results.dkim\<close>; \<open>txtVal\<close> is its \<^verbatim>\<open>txt\<close> property.\<close>

record dkim_entry =
  selector :: string
  txtVal :: string

record dns_results =
  domain :: string
  mx :: "mx_record list"
  spf :: "string option"
  dkim :: "dkim_entry list"
  dmarc :: "string option"
  verdict :: verdict

text \<open>
  The state the body of \<^verbatim>\<open>dnsStatus\<close> threads through its checks: the \<^verbatim>\<open>results\<close>
  object it mutates, and the resolver calls awaited so far (oldest first).
\<close>

record engine =
  results :: dns_results
  issued :: "query list"

text \<open>
  Lines 26-34. The \<^verbatim>\<open>Inl\<close> branch is the \<^verbatim>\<open>catch\<close> block, which only logs a warning.
\<close>

definition check_mx :: "resolver \<Rightarrow> string \<Rightarrow> engine \<Rightarrow> engine" where
  "check_mx dns d st =
     (let st' = st\<lparr>issued := issued st @ [MxQuery d]\<rparr>
      in case resolveMx dns d of
           Inr mxRecords \<Rightarrow>
             st'\<lparr>results := (results st')\<lparr>mx :=
                   map (\<lambda>record. \<lparr>exchange = exchange record, priority = priority record\<rparr>)
                       mxRecords\<rparr>\<rparr>
         | Inl error \<Rightarrow> st')"

text \<open>
  Lines 37-47. \<^verbatim>\<open>find\<close> gives the first record whose joined chunks start with
  \<^verbatim>\<open>v=spf1\<close>, or \<^verbatim>\<open>undefined\<close>; an array is truthy, so \<^verbatim>\<open>if (spfRecord)\<close> tests
  that a record was found.
\<close>

definition check_spf :: "resolver \<Rightarrow> string \<Rightarrow> engine \<Rightarrow> engine" where
  "check_spf dns d st =
     (let st' = st\<lparr>issued := issued st @ [TxtQuery d]\<rparr>
      in case resolveTxt dns d of
           Inr txtRecords \<Rightarrow>
             (case List.find (\<lambda>record. startsWith (join record) ''v=spf1'') txtRecords of
                Some spfRecord \<Rightarrow> st'\<lparr>results := (results st')\<lparr>spf := Some (join spfRecord)\<rparr>\<rparr>
              | None \<Rightarrow> st')
         | Inl error \<Rightarrow> st')"

text \<open>Line 50.\<close>

definition dkimSelectors :: "string list" where
  "dkimSelectors = [''s1'', ''default'', ''selector1'', ''selector2'']"

text \<open>Lines 52-66: the body of the loop over the selectors, for one selector.\<close>

definition dkim_step :: "resolver \<Rightarrow> string \<Rightarrow> string \<Rightarrow> engine \<Rightarrow> engine" where
  "dkim_step dns d sel st =
     (let dkimDomain = sel @ ''._domainkey.'' @ d;
          st' = st\<lparr>issued := issued st @ [TxtQuery dkimDomain]\<rparr>
      in case resolveTxt dns dkimDomain of
           Inr txtRecords \<Rightarrow>
             (case List.find (\<lambda>record. includesStr (join record) ''v=DKIM1'') txtRecords of
                Some dkimRecord \<Rightarrow>
                  st'\<lparr>results := (results st')\<lparr>dkim :=
                        dkim (results st') @ [\<lparr>selector = sel, txtVal = join dkimRecord\<rparr>]\<rparr>\<rparr>
              | None \<Rightarrow> st')
         | Inl error \<Rightarrow> st')"

text \<open>Lines 51-67: \<^verbatim>\<open>for (const selector of dkimSelectors)\<close>.\<close>

fun check_dkim :: "resolver \<Rightarrow> string \<Rightarrow> string list \<Rightarrow> engine \<Rightarrow> engine" where
  "check_dkim dns d [] st = st"
| "check_dkim dns d (sel # rest) st = check_dkim dns d rest (dkim_step dns d sel st)"

text \<open>Lines 70-81.\<close>

definition check_dmarc :: "resolver \<Rightarrow> string \<Rightarrow> engine \<Rightarrow> engine" where
  "check_dmarc dns d st =
     (let dmarcDomain = ''_dmarc.'' @ d;
          st' = st\<lparr>issued := issued st @ [TxtQuery dmarcDomain]\<rparr>
      in case resolveTxt dns dmarcDomain of
           Inr txtRecords \<Rightarrow>
             (case List.find (\<lambda>record. startsWith (join record) ''v=DMARC1'') txtRecords of
                Some dmarcRecord \<Rightarrow>
                  st'\<lparr>results := (results st')\<lparr>dmarc := Some (join dmarcRecord)\<rparr>\<rparr>
              | None \<Rightarrow> st')
         | Inl error \<Rightarrow> st')"

text \<open>
  JavaScript truthiness of a value that is \<^verbatim>\<open>null\<close> or a string: \<^verbatim>\<open>null\<close> and the
  empty string are falsy.
\<close>

fun truthy :: "string option \<Rightarrow> bool" where
  "truthy None = False"
| "truthy (Some s) = (s \<noteq> [])"

text \<open>Lines 84-88: the local \<^verbatim>\<open>score\<close>, four increments of 25.\<close>

definition score_of :: "dns_results \<Rightarrow> nat" where
  "score_of r =
     (if length (mx r) > 0 then 25 else 0) +
     (if truthy (spf r) then 25 else 0) +
     (if length (dkim r) > 0 then 25 else 0) +
     (if truthy (dmarc r) then 25 else 0)"

text \<open>Lines 90-92.\<close>

definition verdict_of :: "nat \<Rightarrow> verdict" where
  "verdict_of score =
     (if score \<ge> 100 then Pass else if score \<ge> 75 then Warn else Fail)"

text \<open>
  What one call of \<^verbatim>\<open>dnsStatus\<close> does: the value its promise settles with (\<^verbatim>\<open>Inr\<close>
  the returned \<^verbatim>\<open>results\<close>, \<^verbatim>\<open>Inl\<close> a rethrown error), the \<^verbatim>\<open>score\<close> it passes
  to \<^verbatim>\<open>logger.info\<close>, and the resolver calls it issued.
\<close>

record dns_run =
  outcome :: "dns_error + dns_results"
  logged_score :: nat
  queries :: "query list"

text \<open>
  Lines 12-101, for an \<^verbatim>\<open>input\<close> whose \<^verbatim>\<open>domain\<close> is a string (the tool's input schema
  requires one). Every resolver call sits in a \<^verbatim>\<open>try\<close> block of its own, so the outer
  \<^verbatim>\<open>catch\<close>, which rethrows, is never entered.
\<close>

definition dnsStatus_run :: "resolver \<Rightarrow> string \<Rightarrow> dns_run" where
  "dnsStatus_run dns d =
     (let st0 = \<lparr>results = \<lparr>domain = d, mx = [], spf = None, dkim = [], dmarc = None,
                             verdict = Unknown\<rparr>,
                 issued = []\<rparr>;
          st1 = check_mx dns d st0;
          st2 = check_spf dns d st1;
          st3 = check_dkim dns d dkimSelectors st2;
          st4 = check_dmarc dns d st3;
          score = score_of (results st4)
      in \<lparr>outcome = Inr ((results st4)\<lparr>verdict := verdict_of score\<rparr>),
          logged_score = score,
          queries = issued st4\<rparr>)"

definition dnsStatus :: "resolver \<Rightarrow> string \<Rightarrow> dns_error + dns_results" where
  "dnsStatus dns d = outcome (dnsStatus_run dns d)"

text \<open>
  The object \<^verbatim>\<open>dnsStatus\<close> returns, as a caller reads it. The literal of lines 16-23
  declares the six properties \<^verbatim>\<open>domain\<close>, \<^verbatim>\<open>mx\<close>, \<^verbatim>\<open>spf\<close>, \<^verbatim>\<open>dkim\<close>, \<^verbatim>\<open>dmarc\<close>
  and \<^verbatim>\<open>verdict\<close>, and no statement adds another: \<^verbatim>\<open>score\<close> is a local variable
  that is passed to the logger only. Reading any other property gives \<^verbatim>\<open>undefined\<close>,
  here \<open>None\<close>.
\<close>

datatype js_value =
  JString string
| JNull
| JMxList "mx_record list"
| JDkimList "dkim_entry list"

fun verdict_string :: "verdict \<Rightarrow> string" where
  "verdict_string Unknown = ''unknown''"
| "verdict_string Pass = ''pass''"
| "verdict_string Warn = ''warn''"
| "verdict_string Fail = ''fail''"

definition property :: "dns_results \<Rightarrow> string \<Rightarrow> js_value option" where
  "property r key =
     (if key = ''domain'' then Some (JString (domain r))
      else if key = ''mx'' then Some (JMxList (mx r))
      else if key = ''spf'' then Some (case spf r of None \<Rightarrow> JNull | Some s \<Rightarrow> JString s)
      else if key = ''dkim'' then Some (JDkimList (dkim r))
      else if key = ''dmarc'' then Some (case dmarc r of None \<Rightarrow> JNull | Some s \<Rightarrow> JString s)
      else if key = ''verdict'' then Some (JString (verdict_string (verdict r)))
      else None)"

section \<open>The diagnostic script\<close>

text \<open>
  The shell script that checks the same records with \<^verbatim>\<open>dig\<close> and \<^verbatim>\<open>grep\<close>. A command's
  output is the list of its lines. The script's domain and mail server are constants
  (lines 6-7).
\<close>

definition DOMAIN :: string where
  "DOMAIN = ''mailhero.in''"

definition MAIL_SERVER :: string where
  "MAIL_SERVER = ''mail.mailhero.in''"

text \<open>
  What the script reads from its environment: whether \<^verbatim>\<open>dig\<close> is installed, and the
  lines \<^verbatim>\<open>dig +short MX\<close>, \<^verbatim>\<open>dig +short A\<close> and \<^verbatim>\<open>dig +short TXT\<close> print for a name.
\<close>

record dig_env =
  dig_installed :: bool
  dig_MX :: "string \<Rightarrow> string list"
  dig_A :: "string \<Rightarrow> string list"
  dig_TXT :: "string \<Rightarrow> string list"

text \<open>
  \<^verbatim>\<open>[ -n "$X" ]\<close> for a variable that captured a command's output: the command
  substitution drops trailing newlines, so the variable is non-empty iff some line is.
\<close>

definition nonempty :: "string list \<Rightarrow> bool" where
  "nonempty ls = list_ex (\<lambda>l. l \<noteq> []) ls"

text \<open>
  \<^verbatim>\<open>grep\<close> with a basic regular expression. The script's patterns are built from ordinary
  characters, the dot of \<^verbatim>\<open>mail.mailhero.in\<close> (which matches any one character) and the
  alternation \<^verbatim>\<open>\|\<close>; a pattern is given here as the list of its alternatives. A line
  is selected when an alternative matches somewhere in it; matching is case-sensitive.
\<close>

fun bre_atom :: "char \<Rightarrow> char \<Rightarrow> bool" where
  "bre_atom p c = (p = CHR ''.'' \<or> p = c)"

fun matches_here :: "string \<Rightarrow> string \<Rightarrow> bool" where
  "matches_here [] l = True"
| "matches_here (p # ps) [] = False"
| "matches_here (p # ps) (c # cs) = (bre_atom p c \<and> matches_here ps cs)"

fun grep_line :: "string \<Rightarrow> string \<Rightarrow> bool" where
  "grep_line pat [] = matches_here pat []"
| "grep_line pat (c # cs) = (matches_here pat (c # cs) \<or> grep_line pat cs)"

definition grep :: "string list \<Rightarrow> string list \<Rightarrow> string list" where
  "grep alts ls = filter (\<lambda>l. list_ex (\<lambda>pat. grep_line pat l) alts) ls"

definition grep_q :: "string list \<Rightarrow> string list \<Rightarrow> bool" where
  "grep_q alts ls = list_ex (\<lambda>l. list_ex (\<lambda>pat. grep_line pat l) alts) ls"

text \<open>Line 78.\<close>

definition DKIM_SELECTORS :: "string list" where
  "DKIM_SELECTORS = [''s1'', ''default'', ''selector1'', ''mail'']"

text \<open>Lines 81-93: the loop that sets \<^verbatim>\<open>DKIM_FOUND\<close>.\<close>

fun dkim_loop :: "dig_env \<Rightarrow> string list \<Rightarrow> bool \<Rightarrow> bool" where
  "dkim_loop env [] found = found"
| "dkim_loop env (sel # rest) found =
     (let DKIM_DOMAIN = sel @ ''._domainkey.'' @ DOMAIN;
          DKIM_RESULT = grep [''v=DKIM1''] (dig_TXT env DKIM_DOMAIN)
      in dkim_loop env rest (if nonempty DKIM_RESULT then True else found))"

text \<open>
  Lines 154-160: the summary branch taken, as the verdict it stands for: the green
  "Excellent" message is \<open>Pass\<close>, the yellow "Good configuration" message is \<open>Warn\<close>,
  the red "needs significant work" message is \<open>Fail\<close>.
\<close>

definition summary_of :: "nat \<Rightarrow> nat \<Rightarrow> verdict" where
  "summary_of SCORE TOTAL =
     (if SCORE = TOTAL then Pass else if SCORE \<ge> 3 then Warn else Fail)"

text \<open>
  What a run of the script reports. A sub-check that is printed only inside the
  "found" branch of its record is \<open>None\<close> when that branch is not taken.
\<close>

record dns_check =
  MX_RESULT :: "string list"
  mx_listed :: "bool option"
  A_RESULT :: "string list"
  SPF_RESULT :: "string list"
  spf_valid :: "bool option"
  DKIM_FOUND :: bool
  DMARC_RESULT :: "string list"
  dmarc_enforced :: "bool option"
  SCORE :: nat
  summary :: verdict

datatype script_exit = DigMissing

text \<open>
  Lines 24-160. The PTR check and the port probes (lines 121-136 and 162-185) only print
  and never touch \<^verbatim>\<open>SCORE\<close>; they are not part of the report modelled here.
\<close>

definition verify_dns :: "dig_env \<Rightarrow> script_exit + dns_check" where
  "verify_dns env =
     (if \<not> dig_installed env then Inl DigMissing
      else
        let mxr = dig_MX env DOMAIN;
            ar = dig_A env MAIL_SERVER;
            spfr = grep [''v=spf1''] (dig_TXT env DOMAIN);
            found = dkim_loop env DKIM_SELECTORS False;
            dmarcr = grep [''v=DMARC1''] (dig_TXT env (''_dmarc.'' @ DOMAIN));
            TOTAL = 5;
            score = (if nonempty mxr then 1 else 0) +
                    (if nonempty ar then 1 else 0) +
                    (if nonempty spfr then 1 else 0) +
                    (if found then 1 else 0) +
                    (if nonempty dmarcr then 1 else 0)
        in Inr \<lparr>MX_RESULT = mxr,
                mx_listed = (if nonempty mxr then Some (grep_q [MAIL_SERVER] mxr) else None),
                A_RESULT = ar,
                SPF_RESULT = spfr,
                spf_valid =
                  (if nonempty spfr
                   then Some (grep_q [''include:'', ''a:'', ''mx'', ''ip4:'', ''ip6:''] spfr)
                   else None),
                DKIM_FOUND = found,
                DMARC_RESULT = dmarcr,
                dmarc_enforced =
                  (if nonempty dmarcr
                   then Some (grep_q [''p=reject'', ''p=quarantine''] dmarcr)
                   else None),
                SCORE = score,
                summary = summary_of score TOTAL\<rparr>)"

section \<open>Closed forms of the checks\<close>

text \<open>
  What each check of \<^verbatim>\<open>dnsStatus\<close> leaves in \<^verbatim>\<open>results\<close>, read off the resolver's
  answers. These are proof devices; \<open>dnsStatus_run_closed\<close> below shows that the run
  computes exactly them.
\<close>

definition mx_hit :: "resolver \<Rightarrow> string \<Rightarrow> mx_record list" where
  "mx_hit dns d = (case resolveMx dns d of Inr mxRecords \<Rightarrow> mxRecords | Inl error \<Rightarrow> [])"

definition txt_hit :: "string \<Rightarrow> resolver \<Rightarrow> string \<Rightarrow> string option" where
  "txt_hit tag dns name =
     (case resolveTxt dns name of
        Inr txtRecords \<Rightarrow>
          map_option join (List.find (\<lambda>record. startsWith (join record) tag) txtRecords)
      | Inl error \<Rightarrow> None)"

definition dkim_hit :: "resolver \<Rightarrow> string \<Rightarrow> string \<Rightarrow> dkim_entry list" where
  "dkim_hit dns d sel =
     (case resolveTxt dns (sel @ ''._domainkey.'' @ d) of
        Inr txtRecords \<Rightarrow>
          (case List.find (\<lambda>record. includesStr (join record) ''v=DKIM1'') txtRecords of
             Some dkimRecord \<Rightarrow> [\<lparr>selector = sel, txtVal = join dkimRecord\<rparr>]
           | None \<Rightarrow> [])
      | Inl error \<Rightarrow> [])"

definition observed :: "resolver \<Rightarrow> string \<Rightarrow> dns_results" where
  "observed dns d =
     \<lparr>domain = d, mx = mx_hit dns d, spf = txt_hit ''v=spf1'' dns d,
      dkim = concat (map (dkim_hit dns d) dkimSelectors),
      dmarc = txt_hit ''v=DMARC1'' dns (''_dmarc.'' @ d), verdict = Unknown\<rparr>"

text \<open>A resolver's answer to a query.\<close>

datatype answer =
  MxAnswer "dns_error + mx_record list"
| TxtAnswer "dns_error + string list list"

fun ask :: "resolver \<Rightarrow> query \<Rightarrow> answer" where
  "ask dns (MxQuery n) = MxAnswer (resolveMx dns n)"
| "ask dns (TxtQuery n) = TxtAnswer (resolveTxt dns n)"

text \<open>
  An answer without records: the lookup rejected, or it resolved to the empty list.
\<close>

fun no_records :: "answer \<Rightarrow> bool" where
  "no_records (MxAnswer (Inl e)) = True"
| "no_records (MxAnswer (Inr rs)) = (rs = [])"
| "no_records (TxtAnswer (Inl e)) = True"
| "no_records (TxtAnswer (Inr rs)) = (rs = [])"

section \<open>The specification's wording, for comparison\<close>

text \<open>
  The score as the specification words it for the service tool: 25 for each true flag
  among MX present, A present, SPF present, DKIM present.
\<close>

definition spec_score_4factor :: "bool \<Rightarrow> bool \<Rightarrow> bool \<Rightarrow> bool \<Rightarrow> nat" where
  "spec_score_4factor mxP aP spfP dkimP = 25 * length (filter id [mxP, aP, spfP, dkimP])"

text \<open>
  The SPF selection as the specification words it: the first TXT value that starts with
  \<^verbatim>\<open>v=spf1\<close>; present iff one is found.
\<close>

definition spec_spf_select :: "string list \<Rightarrow> string option" where
  "spec_spf_select vals = List.find (\<lambda>v. startsWith v ''v=spf1'') vals"

text \<open>
  The MX expectation as the specification words it: some exchange equals the mail
  host name, compared without regard to case and to a trailing dot.
\<close>

definition lower_char :: "char \<Rightarrow> char" where
  "lower_char c =
     (case map_of (zip ''ABCDEFGHIJKLMNOPQRSTUVWXYZ'' ''abcdefghijklmnopqrstuvwxyz'') c of
        Some l \<Rightarrow> l
      | None \<Rightarrow> c)"

definition strip_dot :: "string \<Rightarrow> string" where
  "strip_dot s = (if s \<noteq> [] \<and> last s = CHR ''.'' then butlast s else s)"

definition spec_mx_matches :: "string list \<Rightarrow> string \<Rightarrow> bool" where
  "spec_mx_matches exchanges mailHostname =
     list_ex (\<lambda>x. map lower_char (strip_dot x) = map lower_char (strip_dot mailHostname))
             exchanges"

section \<open>Concrete zones\<close>

text \<open>
  A resolver over a finite zone: a name with an entry resolves to it, any other name
  rejects with \<^verbatim>\<open>ENOTFOUND\<close>.
\<close>

definition zone ::
  "(string \<times> mx_record list) list \<Rightarrow> (string \<times> string list list) list \<Rightarrow> resolver" where
  "zone mxs txts =
     \<lparr>resolveMx = (\<lambda>n. case map_of mxs n of Some rs \<Rightarrow> Inr rs | None \<Rightarrow> Inl ENOTFOUND),
      resolveTxt = (\<lambda>n. case map_of txts n of Some rs \<Rightarrow> Inr rs | None \<Rightarrow> Inl ENOTFOUND)\<rparr>"

definition zone_none :: resolver where
  "zone_none = zone [] []"

definition zone_dmarc_only :: resolver where
  "zone_dmarc_only = zone [] [(''_dmarc.example.com'', [[''v=DMARC1; p=none;'']])]"

text \<open>
  The end-to-end scenario: MX, SPF and DMARC records, and DKIM keys at two of the four
  candidate selectors, one of them split into two chunks.
\<close>

definition zone_example :: resolver where
  "zone_example = zone
     [(''example.com'', [\<lparr>exchange = ''mail.example.com'', priority = 10\<rparr>])]
     [(''example.com'', [[''google-site-verification=abc''], [''v=spf1 mx -all'']]),
      (''s1._domainkey.example.com'', [[''v=DKIM1; k=rsa; p=AAAB'']]),
      (''selector1._domainkey.example.com'', [[''k=rsa; v=DK'', ''IM1; p=AAAC'']]),
      (''_dmarc.example.com'', [[''v=DMARC1; p=quarantine;'']])]"

text \<open>The same zone with one more name, which \<^verbatim>\<open>dnsStatus\<close> never asks for.\<close>

definition zone_example_more :: resolver where
  "zone_example_more = zone
     [(''example.com'', [\<lparr>exchange = ''mail.example.com'', priority = 10\<rparr>]),
      (''other.example.com'', [\<lparr>exchange = ''mx.other.example.com'', priority = 5\<rparr>])]
     [(''example.com'', [[''google-site-verification=abc''], [''v=spf1 mx -all'']]),
      (''s1._domainkey.example.com'', [[''v=DKIM1; k=rsa; p=AAAB'']]),
      (''selector1._domainkey.example.com'', [[''k=rsa; v=DK'', ''IM1; p=AAAC'']]),
      (''_dmarc.example.com'', [[''v=DMARC1; p=quarantine;'']])]"

text \<open>
  Environments of the script. \<^verbatim>\<open>dig +short\<close> prints an MX record as its priority, a
  space and the exchange, and a TXT value between double quotes.
\<close>

definition mx_line :: "string \<Rightarrow> string \<Rightarrow> string" where
  "mx_line prio exch = prio @ '' '' @ exch"

definition txt_line :: "string \<Rightarrow> string" where
  "txt_line v = CHR 0x22 # v @ [CHR 0x22]"

definition dig_zone ::
  "(string \<times> string list) list \<Rightarrow> (string \<times> string list) list \<Rightarrow>
   (string \<times> string list) list \<Rightarrow> dig_env" where
  "dig_zone mxs as txts =
     \<lparr>dig_installed = True,
      dig_MX = (\<lambda>n. case map_of mxs n of Some ls \<Rightarrow> ls | None \<Rightarrow> []),
      dig_A = (\<lambda>n. case map_of as n of Some ls \<Rightarrow> ls | None \<Rightarrow> []),
      dig_TXT = (\<lambda>n. case map_of txts n of Some ls \<Rightarrow> ls | None \<Rightarrow> [])\<rparr>"

definition env_mailhero :: dig_env where
  "env_mailhero = dig_zone
     [(''mailhero.in'', [mx_line ''10'' ''mail.mailhero.in.''])]
     [(''mail.mailhero.in'', [''203.0.113.5''])]
     [(''mailhero.in'', [txt_line ''v=spf1 mx -all'']),
      (''s1._domainkey.mailhero.in'', [txt_line ''v=DKIM1; k=rsa; p=AAAB'']),
      (''_dmarc.mailhero.in'', [txt_line ''v=DMARC1; p=none;''])]"

text \<open>An SPF value without a recognised mechanism, and nothing else.\<close>

definition env_spf_foo :: dig_env where
  "env_spf_foo = dig_zone [] [] [(''mailhero.in'', [txt_line ''v=spf1 foo''])]"

text \<open>A TXT value that mentions \<^verbatim>\<open>v=spf1\<close> after a leading space.\<close>

definition env_spf_shifted :: dig_env where
  "env_spf_shifted = dig_zone [] [] [(''mailhero.in'', [txt_line '' v=spf1 mx -all''])]"

text \<open>The mail server's name in capitals, and a longer name that merely contains it.\<close>

definition env_mx_upper :: dig_env where
  "env_mx_upper = dig_zone [(''mailhero.in'', [mx_line ''10'' ''MAIL.MAILHERO.IN.''])] [] []"

definition env_mx_longer :: dig_env where
  "env_mx_longer =
     dig_zone [(''mailhero.in'', [mx_line ''10'' ''mail.mailhero.in.example.net.''])] [] []"

text \<open>A name that is not the mail server's but fits it when a dot stands for any character.\<close>

definition env_mx_wildcard :: dig_env where
  "env_mx_wildcard = dig_zone [(''mailhero.in'', [mx_line ''10'' ''mailXmailhero-in.''])] [] []"

section \<open>Facts about the primitives and the checks\<close>

lemma startsWith_prefix: "startsWith s p \<longleftrightarrow> prefix p s"
  by (induction s p rule: startsWith.induct) auto

lemma includesStr_sublist: "includesStr s p \<longleftrightarrow> sublist p s"
  by (induction s) (auto simp: startsWith_prefix sublist_Cons_right)

lemma startsWith_nonempty: "startsWith s (p # ps) \<Longrightarrow> s \<noteq> []"
  by (cases s) simp_all

lemma find_holds: "List.find P xs = Some x \<Longrightarrow> P x"
  by (simp add: find_Some_iff) blast

lemma mx_copy:
  "map (\<lambda>record. \<lparr>exchange = exchange record, priority = priority record\<rparr>) xs = xs"
  by (induction xs) auto

lemma check_mx_closed:
  "mx (results st) = [] \<Longrightarrow> check_mx dns d st =
     st\<lparr>issued := issued st @ [MxQuery d], results := (results st)\<lparr>mx := mx_hit dns d\<rparr>\<rparr>"
  by (simp add: check_mx_def mx_hit_def mx_copy Let_def split: sum.splits)

lemma check_spf_closed:
  "spf (results st) = None \<Longrightarrow> check_spf dns d st =
     st\<lparr>issued := issued st @ [TxtQuery d],
        results := (results st)\<lparr>spf := txt_hit ''v=spf1'' dns d\<rparr>\<rparr>"
  by (simp add: check_spf_def txt_hit_def Let_def split: sum.splits option.splits)

lemma dkim_step_closed:
  "dkim_step dns d sel st =
     st\<lparr>issued := issued st @ [TxtQuery (sel @ ''._domainkey.'' @ d)],
        results := (results st)\<lparr>dkim := dkim (results st) @ dkim_hit dns d sel\<rparr>\<rparr>"
  by (simp add: dkim_step_def dkim_hit_def Let_def split: sum.splits option.splits)

lemma check_dkim_closed:
  "check_dkim dns d sels st =
     st\<lparr>issued := issued st @ map (\<lambda>sel. TxtQuery (sel @ ''._domainkey.'' @ d)) sels,
        results := (results st)\<lparr>dkim :=
          dkim (results st) @ concat (map (dkim_hit dns d) sels)\<rparr>\<rparr>"
  by (induction sels arbitrary: st) (simp_all add: dkim_step_closed)

lemma check_dmarc_closed:
  "dmarc (results st) = None \<Longrightarrow> check_dmarc dns d st =
     st\<lparr>issued := issued st @ [TxtQuery (''_dmarc.'' @ d)],
        results := (results st)\<lparr>dmarc := txt_hit ''v=DMARC1'' dns (''_dmarc.'' @ d)\<rparr>\<rparr>"
  by (simp add: check_dmarc_def txt_hit_def Let_def split: sum.splits option.splits)

lemma dnsStatus_run_closed:
  "dnsStatus_run dns d =
     \<lparr>outcome = Inr ((observed dns d)\<lparr>verdict := verdict_of (score_of (observed dns d))\<rparr>),
      logged_score = score_of (observed dns d),
      queries = [MxQuery d, TxtQuery d]
                @ map (\<lambda>sel. TxtQuery (sel @ ''._domainkey.'' @ d)) dkimSelectors
                @ [TxtQuery (''_dmarc.'' @ d)]\<rparr>"
  by (simp add: dnsStatus_run_def Let_def check_mx_closed check_spf_closed check_dkim_closed
      check_dmarc_closed observed_def)

lemma txt_hit_truthy:
  assumes "tag \<noteq> []"
  shows "truthy (txt_hit tag dns n) \<longleftrightarrow> txt_hit tag dns n \<noteq> None"
proof (cases "txt_hit tag dns n")
  case None
  then show ?thesis by simp
next
  case (Some v)
  then obtain recs r where "List.find (\<lambda>record. startsWith (join record) tag) recs = Some r"
    and v: "v = join r"
    by (auto simp: txt_hit_def split: sum.splits)
  then have "startsWith (join r) tag" by (auto dest: find_holds)
  with assms v have "v \<noteq> []" by (cases tag) (auto dest: startsWith_nonempty)
  with Some show ?thesis by simp
qed

lemma score_of_range: "score_of r \<in> {0, 25, 50, 75, 100}"
  by (simp add: score_of_def)

lemma verdict_of_known: "verdict_of n \<in> {Pass, Warn, Fail}"
  by (simp add: verdict_of_def)

lemma score_of_observed:
  "score_of (observed dns d) =
     25 * length (filter id [mx (observed dns d) \<noteq> [], spf (observed dns d) \<noteq> None,
                             dkim (observed dns d) \<noteq> [], dmarc (observed dns d) \<noteq> None])"
  using txt_hit_truthy[of "''v=spf1''" dns d]
    txt_hit_truthy[of "''v=DMARC1''" dns "''_dmarc.'' @ d"]
  by (simp add: score_of_def observed_def)

lemma find_is_Some: "(\<exists>x. List.find P xs = Some x) \<longleftrightarrow> (\<exists>x \<in> set xs. P x)"
  using find_None_iff[of P xs] by auto

lemma dkim_hit_nonempty:
  "dkim_hit dns d sel \<noteq> [] \<longleftrightarrow>
     (\<exists>recs. resolveTxt dns (sel @ ''._domainkey.'' @ d) = Inr recs
        \<and> (\<exists>rec \<in> set recs. sublist ''v=DKIM1'' (concat rec)))"
proof (cases "resolveTxt dns (sel @ ''._domainkey.'' @ d)")
  case (Inl e)
  then show ?thesis by (simp add: dkim_hit_def)
next
  case (Inr recs)
  have "dkim_hit dns d sel \<noteq> [] \<longleftrightarrow>
          (\<exists>r. List.find (\<lambda>record. includesStr (join record) ''v=DKIM1'') recs = Some r)"
    using Inr by (simp add: dkim_hit_def split: option.splits)
  also have "\<dots> \<longleftrightarrow> (\<exists>rec \<in> set recs. sublist ''v=DKIM1'' (concat rec))"
    by (simp only: find_is_Some includesStr_sublist join_def)
  finally show ?thesis using Inr by simp
qed

lemma dkim_hit_selector: "map selector (dkim_hit dns d sel) = (if dkim_hit dns d sel \<noteq> [] then [sel] else [])"
  by (simp add: dkim_hit_def split: sum.splits option.splits)

lemma dkim_hits_selectors:
  "map selector (concat (map (dkim_hit dns d) sels)) = filter (\<lambda>sel. dkim_hit dns d sel \<noteq> []) sels"
  by (induction sels) (simp_all add: dkim_hit_selector)

lemma dkim_hit_txt:
  assumes "e \<in> set (dkim_hit dns d sel)"
  shows "sublist ''v=DKIM1'' (txtVal e)"
proof (cases "resolveTxt dns (sel @ ''._domainkey.'' @ d)")
  case (Inl err)
  with assms show ?thesis by (simp add: dkim_hit_def)
next
  case (Inr recs)
  show ?thesis
  proof (cases "List.find (\<lambda>record. includesStr (join record) ''v=DKIM1'') recs")
    case None
    with Inr assms show ?thesis by (simp add: dkim_hit_def)
  next
    case (Some r)
    then have "includesStr (join r) ''v=DKIM1''" by (rule find_holds)
    moreover from Some Inr assms have "txtVal e = join r" by (simp add: dkim_hit_def)
    ultimately show ?thesis by (simp add: includesStr_sublist)
  qed
qed

lemma score_of_verdict: "score_of (r\<lparr>verdict := v\<rparr>) = score_of r"
  by (simp add: score_of_def)

lemma observed_agree:
  assumes "resolveMx dns1 d = resolveMx dns2 d"
    and "resolveTxt dns1 d = resolveTxt dns2 d"
    and "\<forall>sel \<in> set dkimSelectors.
           resolveTxt dns1 (sel @ ''._domainkey.'' @ d) = resolveTxt dns2 (sel @ ''._domainkey.'' @ d)"
    and "resolveTxt dns1 (''_dmarc.'' @ d) = resolveTxt dns2 (''_dmarc.'' @ d)"
  shows "observed dns1 d = observed dns2 d"
proof -
  have "map (dkim_hit dns1 d) dkimSelectors = map (dkim_hit dns2 d) dkimSelectors"
    using assms(3) by (intro map_cong refl) (simp add: dkim_hit_def)
  then have "concat (map (dkim_hit dns1 d) dkimSelectors) =
      concat (map (dkim_hit dns2 d) dkimSelectors)"
    by (rule arg_cong)
  then show ?thesis
    using assms(1,2,4) by (simp add: observed_def mx_hit_def txt_hit_def)
qed

lemma matches_here_iff:
  "matches_here pat l \<longleftrightarrow>
     (\<exists>mid post. l = mid @ post \<and> list_all2 (\<lambda>p c. p = CHR ''.'' \<or> p = c) pat mid)"
proof (induction pat l rule: matches_here.induct)
  case (1 l)
  then show ?case by simp
next
  case (2 p ps)
  then show ?case by simp
next
  case (3 p ps c cs)
  show ?case
  proof
    assume "matches_here (p # ps) (c # cs)"
    then have pc: "p = CHR ''.'' \<or> p = c" and "matches_here ps cs" by simp_all
    with 3 obtain mid post where "cs = mid @ post"
      and "list_all2 (\<lambda>p c. p = CHR ''.'' \<or> p = c) ps mid" by auto
    with pc have "c # cs = (c # mid) @ post \<and> list_all2 (\<lambda>p c. p = CHR ''.'' \<or> p = c) (p # ps) (c # mid)"
      by simp
    then show "\<exists>mid post. c # cs = mid @ post \<and> list_all2 (\<lambda>p c. p = CHR ''.'' \<or> p = c) (p # ps) mid"
      by blast
  next
    assume "\<exists>mid post. c # cs = mid @ post \<and> list_all2 (\<lambda>p c. p = CHR ''.'' \<or> p = c) (p # ps) mid"
    then obtain mid post where e: "c # cs = mid @ post"
      and a: "list_all2 (\<lambda>p c. p = CHR ''.'' \<or> p = c) (p # ps) mid" by blast
    from a obtain m ms where mid: "mid = m # ms" and pm: "p = CHR ''.'' \<or> p = m"
      and r: "list_all2 (\<lambda>p c. p = CHR ''.'' \<or> p = c) ps ms"
      by (auto simp: list_all2_Cons1)
    from e mid have "c = m" and "cs = ms @ post" by simp_all
    with pm r 3 show "matches_here (p # ps) (c # cs)" by auto
  qed
qed

lemma grep_line_iff:
  "grep_line pat l \<longleftrightarrow>
     (\<exists>pre mid post. l = pre @ mid @ post \<and> list_all2 (\<lambda>p c. p = CHR ''.'' \<or> p = c) pat mid)"
proof (induction l)
  case Nil
  then show ?case by (simp add: matches_here_iff)
next
  case (Cons c cs)
  show ?case
  proof
    assume "grep_line pat (c # cs)"
    then consider "matches_here pat (c # cs)" | "grep_line pat cs" by auto
    then show "\<exists>pre mid post. c # cs = pre @ mid @ post \<and> list_all2 (\<lambda>p c. p = CHR ''.'' \<or> p = c) pat mid"
    proof cases
      case 1
      then obtain mid post where "c # cs = [] @ mid @ post" "list_all2 (\<lambda>p c. p = CHR ''.'' \<or> p = c) pat mid"
        by (auto simp: matches_here_iff)
      then show ?thesis by blast
    next
      case 2
      with Cons obtain pre mid post where "cs = pre @ mid @ post" "list_all2 (\<lambda>p c. p = CHR ''.'' \<or> p = c) pat mid"
        by auto
      then have "c # cs = (c # pre) @ mid @ post" by simp
      with \<open>list_all2 _ pat mid\<close> show ?thesis by blast
    qed
  next
    assume "\<exists>pre mid post. c # cs = pre @ mid @ post \<and> list_all2 (\<lambda>p c. p = CHR ''.'' \<or> p = c) pat mid"
    then obtain pre mid post where e: "c # cs = pre @ mid @ post"
      and a: "list_all2 (\<lambda>p c. p = CHR ''.'' \<or> p = c) pat mid" by blast
    show "grep_line pat (c # cs)"
    proof (cases pre)
      case Nil
      with e a have "matches_here pat (c # cs)" by (auto simp: matches_here_iff)
      then show ?thesis by simp
    next
      case (Cons x xs)
      with e have "cs = xs @ mid @ post" by simp
      with a Cons.IH have "grep_line pat cs" by blast
      then show ?thesis by simp
    qed
  qed
qed

lemma literal_all2:
  "CHR ''.'' \<notin> set pat \<Longrightarrow> list_all2 (\<lambda>p c. p = CHR ''.'' \<or> p = c) pat mid \<longleftrightarrow> mid = pat"
proof (induction pat arbitrary: mid)
  case Nil
  then show ?case by auto
next
  case (Cons p ps)
  then show ?case by (cases mid) auto
qed

lemma grep_line_literal:
  assumes "CHR ''.'' \<notin> set pat"
  shows "grep_line pat l \<longleftrightarrow> sublist pat l"
  unfolding grep_line_iff sublist_def using literal_all2[OF assms] by auto

lemma grep_line_nonempty: "pat \<noteq> [] \<Longrightarrow> grep_line pat l \<Longrightarrow> l \<noteq> []"
  by (cases pat) auto

lemma nonempty_grep:
  assumes "[] \<notin> set alts"
  shows "nonempty (grep alts ls) \<longleftrightarrow> grep_q alts ls"
proof -
  have "l \<noteq> []" if "pat \<in> set alts" "grep_line pat l" for pat l
  proof -
    from that(1) assms have "pat \<noteq> []" by auto
    then show ?thesis using that(2) by (rule grep_line_nonempty)
  qed
  then show ?thesis
    by (auto simp: nonempty_def grep_def grep_q_def list_ex_iff)
qed

text \<open>The unfoldings that evaluate the script on a concrete environment.\<close>

lemmas script_eval = verify_dns_def dig_zone_def grep_def grep_q_def nonempty_def DOMAIN_def
  MAIL_SERVER_def DKIM_SELECTORS_def Let_def summary_of_def

lemma verdict_of_thresholds:
  "(verdict_of n = Pass \<longleftrightarrow> 100 \<le> n) \<and> (verdict_of n = Warn \<longleftrightarrow> 75 \<le> n \<and> n < 100)
   \<and> (verdict_of n = Fail \<longleftrightarrow> n < 75)"
  by (simp add: verdict_of_def)

lemma score_of_le: "score_of r \<le> 100"
  by (simp add: score_of_def)

lemma summary_of_thresholds:
  "n \<le> 5 \<Longrightarrow> (summary_of n 5 = Pass \<longleftrightarrow> n = 5) \<and> (summary_of n 5 = Warn \<longleftrightarrow> 3 \<le> n \<and> n < 5)
   \<and> (summary_of n 5 = Fail \<longleftrightarrow> n < 3)"
  by (simp add: summary_of_def)

lemma verify_dns_score:
  assumes "verify_dns env = Inr chk"
  shows "SCORE chk \<le> 5 \<and> summary chk = summary_of (SCORE chk) 5"
proof -
  from assms have i: "dig_installed env"
    by (auto simp: verify_dns_def split: if_splits)
  from assms show ?thesis
    unfolding verify_dns_def Let_def using i by (auto split: if_splits)
qed

lemma txt_hit_Some_iff:
  "txt_hit tag dns n = Some v \<longleftrightarrow>
     (\<exists>recs i. resolveTxt dns n = Inr recs \<and> i < length recs \<and> v = concat (recs ! i)
        \<and> prefix tag v \<and> (\<forall>j<i. \<not> prefix tag (concat (recs ! j))))"
proof (cases "resolveTxt dns n")
  case (Inl e)
  then show ?thesis by (simp add: txt_hit_def)
next
  case (Inr recs)
  have "txt_hit tag dns n = Some v \<longleftrightarrow>
      (\<exists>r. List.find (\<lambda>record. prefix tag (concat record)) recs = Some r \<and> v = concat r)"
    using Inr by (auto simp: txt_hit_def startsWith_prefix join_def)
  also have "\<dots> \<longleftrightarrow> (\<exists>i. i < length recs \<and> v = concat (recs ! i)
        \<and> prefix tag v \<and> (\<forall>j<i. \<not> prefix tag (concat (recs ! j))))"
    by (auto simp: find_Some_iff)
  finally show ?thesis using Inr by simp
qed

lemma txt_hit_present:
  "txt_hit tag dns n \<noteq> None \<longleftrightarrow>
     (\<exists>recs. resolveTxt dns n = Inr recs \<and> (\<exists>rec \<in> set recs. prefix tag (concat rec)))"
proof (cases "resolveTxt dns n")
  case (Inl e)
  then show ?thesis by (simp add: txt_hit_def)
next
  case (Inr recs)
  have "txt_hit tag dns n \<noteq> None \<longleftrightarrow>
      (\<exists>r. List.find (\<lambda>record. startsWith (join record) tag) recs = Some r)"
    using Inr by (simp add: txt_hit_def)
  also have "\<dots> \<longleftrightarrow> (\<exists>rec \<in> set recs. prefix tag (concat rec))"
    by (simp only: find_is_Some startsWith_prefix join_def)
  finally show ?thesis using Inr by simp
qed

lemma verify_dns_spf:
  assumes "verify_dns env = Inr chk"
  shows "SPF_RESULT chk = grep [''v=spf1''] (dig_TXT env DOMAIN)"
    and "spf_valid chk =
      (if nonempty (SPF_RESULT chk)
       then Some (grep_q [''include:'', ''a:'', ''mx'', ''ip4:'', ''ip6:''] (SPF_RESULT chk))
       else None)"
proof -
  from assms have i: "dig_installed env"
    by (auto simp: verify_dns_def split: if_splits)
  from assms i show "SPF_RESULT chk = grep [''v=spf1''] (dig_TXT env DOMAIN)"
    unfolding verify_dns_def Let_def by auto
  from assms i show "spf_valid chk =
      (if nonempty (SPF_RESULT chk)
       then Some (grep_q [''include:'', ''a:'', ''mx'', ''ip4:'', ''ip6:''] (SPF_RESULT chk))
       else None)"
    unfolding verify_dns_def Let_def by auto
qed

lemma property_score: "property r ''score'' = None"
  by (simp add: property_def)

lemma property_verdict: "property r ''verdict'' = Some (JString (verdict_string (verdict r)))"
  by (simp add: property_def)

text \<open>The unfoldings that evaluate a run on a concrete zone.\<close>

lemmas run_eval = dnsStatus_def dnsStatus_run_closed observed_def mx_hit_def txt_hit_def
  dkim_hit_def dkimSelectors_def join_def score_of_def verdict_of_def zone_def

section \<open>The claims\<close>

text \<open>
  C1, as the code has it. The four increments of 25 are for MX present, SPF present,
  DKIM present and DMARC present: \<^verbatim>\<open>dnsStatus\<close> resolves no A record, and DMARC takes
  the fourth place. For every resolver and domain the score is 25 times the number of
  those four flags that are true.
\<close>

theorem score_counts_mx_spf_dkim_dmarc:
  "\<exists>rep. dnsStatus dns d = Inr rep \<and>
     logged_score (dnsStatus_run dns d) =
       25 * length (filter id [mx rep \<noteq> [], spf rep \<noteq> None, dkim rep \<noteq> [], dmarc rep \<noteq> None])"
  by (simp add: dnsStatus_def dnsStatus_run_closed score_of_observed)

theorem score_counts_mx_spf_dkim_dmarc_witness:
  "\<exists>rep. dnsStatus zone_dmarc_only ''example.com'' = Inr rep \<and>
     logged_score (dnsStatus_run zone_dmarc_only ''example.com'') =
       25 * length (filter id [mx rep \<noteq> [], spf rep \<noteq> None, dkim rep \<noteq> [], dmarc rep \<noteq> None])"
  using score_counts_mx_spf_dkim_dmarc [of zone_dmarc_only "''example.com''"] .

text \<open>
  C1 as stated fails. A zone whose only record is a DMARC policy has MX, A, SPF and
  DKIM all absent, so the stated formula gives 0, but the code scores 25. (Should the A
  flag be read as true instead, the zone with no record at all scores 0 against a
  stated 25.)
\<close>

theorem score_4factor_counterexample:
  "dnsStatus zone_dmarc_only ''example.com'' =
     Inr \<lparr>domain = ''example.com'', mx = [], spf = None, dkim = [],
          dmarc = Some ''v=DMARC1; p=none;'', verdict = Fail\<rparr>
   \<and> logged_score (dnsStatus_run zone_dmarc_only ''example.com'') = 25
   \<and> spec_score_4factor False False False False = 0
   \<and> dnsStatus zone_none ''example.com'' =
     Inr \<lparr>domain = ''example.com'', mx = [], spf = None, dkim = [],
          dmarc = None, verdict = Fail\<rparr>
   \<and> logged_score (dnsStatus_run zone_none ''example.com'') = 0
   \<and> spec_score_4factor False True False False = 25"
  by (simp add: run_eval zone_dmarc_only_def zone_none_def spec_score_4factor_def)

text \<open>
  C4, as the code has it. \<^verbatim>\<open>dnsStatus\<close> does not validate its input: for the empty
  domain string it issues the same seven resolver calls as for any other domain, on the
  names built from the empty string, and returns a report for the empty domain.
\<close>

theorem empty_domain_is_queried:
  "(\<exists>rep. dnsStatus dns '''' = Inr rep \<and> domain rep = '''')
   \<and> queries (dnsStatus_run dns '''') =
       [MxQuery '''', TxtQuery '''', TxtQuery ''s1._domainkey.'',
        TxtQuery ''default._domainkey.'', TxtQuery ''selector1._domainkey.'',
        TxtQuery ''selector2._domainkey.'', TxtQuery ''_dmarc.'']"
  by (simp add: dnsStatus_def dnsStatus_run_closed dkimSelectors_def observed_def)

theorem empty_domain_is_queried_witness:
  "(\<exists>rep. dnsStatus zone_example '''' = Inr rep \<and> domain rep = '''')
   \<and> queries (dnsStatus_run zone_example '''') =
       [MxQuery '''', TxtQuery '''', TxtQuery ''s1._domainkey.'',
        TxtQuery ''default._domainkey.'', TxtQuery ''selector1._domainkey.'',
        TxtQuery ''selector2._domainkey.'', TxtQuery ''_dmarc.'']"
  using empty_domain_is_queried [of zone_example] .

text \<open>
  C4 as stated fails: on the empty domain, against a resolver that knows no name, the
  call is not rejected but returns a report, and resolver calls have been issued, the
  first of them the MX lookup of the empty name.
\<close>

theorem empty_domain_rejected_counterexample:
  "dnsStatus zone_none '''' =
     Inr \<lparr>domain = '''', mx = [], spf = None, dkim = [], dmarc = None, verdict = Fail\<rparr>
   \<and> queries (dnsStatus_run zone_none '''') \<noteq> []
   \<and> hd (queries (dnsStatus_run zone_none '''')) = MxQuery ''''"
  by (simp add: run_eval zone_none_def)

text \<open>
  C5. The \<^verbatim>\<open>dkim\<close> entries of the report name exactly those of the four candidate
  selectors s1, default, selector1, selector2 whose TXT lookup at
  \<^verbatim>\<open>{selector}._domainkey.{domain}\<close> resolves and has a record whose joined value
  contains \<^verbatim>\<open>v=DKIM1\<close>; DKIM counts as present (the list is non-empty) iff at least
  one selector has such a record. In the example zone, with keys at two of the four
  selectors, exactly those two are listed.
\<close>

theorem dkim_enumeration_exhaustive:
  "\<exists>rep. dnsStatus dns d = Inr rep
     \<and> (\<forall>sel. sel \<in> selector ` set (dkim rep) \<longleftrightarrow>
           sel \<in> {''s1'', ''default'', ''selector1'', ''selector2''}
           \<and> (\<exists>recs. resolveTxt dns (sel @ ''._domainkey.'' @ d) = Inr recs
                \<and> (\<exists>rec \<in> set recs. sublist ''v=DKIM1'' (concat rec))))
     \<and> (dkim rep \<noteq> [] \<longleftrightarrow>
           (\<exists>sel \<in> {''s1'', ''default'', ''selector1'', ''selector2''}.
              \<exists>recs. resolveTxt dns (sel @ ''._domainkey.'' @ d) = Inr recs
                \<and> (\<exists>rec \<in> set recs. sublist ''v=DKIM1'' (concat rec))))"
proof -
  let ?ks = "concat (map (dkim_hit dns d) dkimSelectors)"
  have sels: "selector ` set ?ks = {sel \<in> set dkimSelectors. dkim_hit dns d sel \<noteq> []}"
    using dkim_hits_selectors[of dns d dkimSelectors] by (metis set_filter set_map)
  have ds: "set dkimSelectors = {''s1'', ''default'', ''selector1'', ''selector2''}"
    by (simp add: dkimSelectors_def)
  have ne: "?ks \<noteq> [] \<longleftrightarrow> (\<exists>sel \<in> set dkimSelectors. dkim_hit dns d sel \<noteq> [])"
    by auto
  have rep: "dnsStatus dns d = Inr ((observed dns d)\<lparr>verdict := verdict_of (score_of (observed dns d))\<rparr>)"
    by (simp add: dnsStatus_def dnsStatus_run_closed)
  have dk: "dkim ((observed dns d)\<lparr>verdict := v\<rparr>) = ?ks" for v
    by (simp add: observed_def)
  show ?thesis
    unfolding rep
    apply (rule exI, rule conjI, rule refl)
    unfolding dk sels ne ds[symmetric]
    by (simp add: dkim_hit_nonempty)
qed

theorem dkim_enumeration_exhaustive_witness:
  "(\<exists>rep. dnsStatus zone_example ''example.com'' = Inr rep
     \<and> (\<forall>sel. sel \<in> selector ` set (dkim rep) \<longleftrightarrow>
           sel \<in> {''s1'', ''default'', ''selector1'', ''selector2''}
           \<and> (\<exists>recs. resolveTxt zone_example (sel @ ''._domainkey.'' @ ''example.com'') = Inr recs
                \<and> (\<exists>rec \<in> set recs. sublist ''v=DKIM1'' (concat rec))))
     \<and> (dkim rep \<noteq> [] \<longleftrightarrow>
           (\<exists>sel \<in> {''s1'', ''default'', ''selector1'', ''selector2''}.
              \<exists>recs. resolveTxt zone_example (sel @ ''._domainkey.'' @ ''example.com'') = Inr recs
                \<and> (\<exists>rec \<in> set recs. sublist ''v=DKIM1'' (concat rec)))))
   \<and> (\<exists>rep. dnsStatus zone_example ''example.com'' = Inr rep
         \<and> map selector (dkim rep) = [''s1'', ''selector1''])"
proof -
  have "\<exists>rep. dnsStatus zone_example ''example.com'' = Inr rep
         \<and> map selector (dkim rep) = [''s1'', ''selector1'']"
    by (simp add: run_eval zone_example_def)
  then show ?thesis
    using dkim_enumeration_exhaustive [of zone_example "''example.com''"] by blast
qed

text \<open>
  C10. In every report the selectors of the \<^verbatim>\<open>dkim\<close> entries are pairwise distinct
  and form a subsequence of the candidate list in its order, the \<^verbatim>\<open>txt\<close> of every
  entry contains \<^verbatim>\<open>v=DKIM1\<close>, and there are at most four entries.
\<close>

theorem dkim_sequence_shape:
  "\<exists>rep. dnsStatus dns d = Inr rep
     \<and> distinct (map selector (dkim rep))
     \<and> subseq (map selector (dkim rep)) [''s1'', ''default'', ''selector1'', ''selector2'']
     \<and> (\<forall>e \<in> set (dkim rep). sublist ''v=DKIM1'' (txtVal e))
     \<and> length (dkim rep) \<le> 4"
proof -
  let ?ks = "concat (map (dkim_hit dns d) dkimSelectors)"
  have m: "map selector ?ks = filter (\<lambda>sel. dkim_hit dns d sel \<noteq> []) dkimSelectors"
    by (rule dkim_hits_selectors)
  have d: "distinct dkimSelectors" by (simp add: dkimSelectors_def)
  have 1: "distinct (map selector ?ks)" unfolding m using d by simp
  have 2: "subseq (map selector ?ks) dkimSelectors" unfolding m by simp
  have 3: "\<forall>e \<in> set ?ks. sublist ''v=DKIM1'' (txtVal e)"
    by (auto dest: dkim_hit_txt)
  have "length (map selector ?ks) \<le> length dkimSelectors"
    unfolding m by (rule length_filter_le)
  then have 4: "length ?ks \<le> 4" by (simp add: dkimSelectors_def)
  have dk: "dkim ((observed dns d)\<lparr>verdict := v\<rparr>) = ?ks" for v
    by (simp add: observed_def)
  have ds: "dkimSelectors = [''s1'', ''default'', ''selector1'', ''selector2'']"
    by (simp add: dkimSelectors_def)
  show ?thesis
    using 1 2 3 4 unfolding ds[symmetric]
    by (simp add: dnsStatus_def dnsStatus_run_closed dk)
qed


theorem dkim_sequence_shape_witness:
  "\<exists>rep. dnsStatus zone_example ''example.com'' = Inr rep
     \<and> distinct (map selector (dkim rep))
     \<and> subseq (map selector (dkim rep)) [''s1'', ''default'', ''selector1'', ''selector2'']
     \<and> (\<forall>e \<in> set (dkim rep). sublist ''v=DKIM1'' (txtVal e))
     \<and> length (dkim rep) \<le> 4"
  using dkim_sequence_shape [of zone_example "''example.com''"] .

text \<open>
  C7. Two invocations whose resolvers give the same answers to the calls the engine
  issues return the same report, compute the same score and issue the same calls,
  however the resolvers differ otherwise; and the score is the function \<open>score_of\<close> of
  the returned report, which reads nothing but its observations.
\<close>

theorem same_answers_same_report:
  assumes "\<forall>q \<in> set (queries (dnsStatus_run dns1 d)). ask dns1 q = ask dns2 q"
  shows "dnsStatus dns1 d = dnsStatus dns2 d
     \<and> logged_score (dnsStatus_run dns1 d) = logged_score (dnsStatus_run dns2 d)
     \<and> queries (dnsStatus_run dns1 d) = queries (dnsStatus_run dns2 d)
     \<and> (\<exists>rep. dnsStatus dns1 d = Inr rep \<and> logged_score (dnsStatus_run dns1 d) = score_of rep)"
proof -
  from assms have a: "\<forall>q \<in> set ([MxQuery d, TxtQuery d]
                @ map (\<lambda>sel. TxtQuery (sel @ ''._domainkey.'' @ d)) dkimSelectors
                @ [TxtQuery (''_dmarc.'' @ d)]). ask dns1 q = ask dns2 q"
    by (simp add: dnsStatus_run_closed)
  have 1: "resolveMx dns1 d = resolveMx dns2 d"
    using a[rule_format, of "MxQuery d"] by simp
  have 2: "resolveTxt dns1 d = resolveTxt dns2 d"
    using a[rule_format, of "TxtQuery d"] by simp
  have 3: "\<forall>sel \<in> set dkimSelectors.
           resolveTxt dns1 (sel @ ''._domainkey.'' @ d) = resolveTxt dns2 (sel @ ''._domainkey.'' @ d)"
  proof
    fix sel assume "sel \<in> set dkimSelectors"
    then show "resolveTxt dns1 (sel @ ''._domainkey.'' @ d) = resolveTxt dns2 (sel @ ''._domainkey.'' @ d)"
      using a[rule_format, of "TxtQuery (sel @ ''._domainkey.'' @ d)"] by auto
  qed
  have 4: "resolveTxt dns1 (''_dmarc.'' @ d) = resolveTxt dns2 (''_dmarc.'' @ d)"
    using a[rule_format, of "TxtQuery (''_dmarc.'' @ d)"] by simp
  have "observed dns1 d = observed dns2 d"
    using 1 2 3 4 by (rule observed_agree)
  then show ?thesis
    by (simp add: dnsStatus_def dnsStatus_run_closed score_of_verdict)
qed

theorem same_answers_same_report_witness:
  "list_all (\<lambda>q. ask zone_example q = ask zone_example_more q)
     (queries (dnsStatus_run zone_example ''example.com''))
   \<and> resolveMx zone_example ''other.example.com''
       \<noteq> resolveMx zone_example_more ''other.example.com''
   \<and> dnsStatus zone_example ''example.com'' = dnsStatus zone_example_more ''example.com''
   \<and> logged_score (dnsStatus_run zone_example ''example.com'') =
       logged_score (dnsStatus_run zone_example_more ''example.com'')
   \<and> queries (dnsStatus_run zone_example ''example.com'') =
       queries (dnsStatus_run zone_example_more ''example.com'')
   \<and> (\<exists>rep. dnsStatus zone_example ''example.com'' = Inr rep
         \<and> logged_score (dnsStatus_run zone_example ''example.com'') = score_of rep)"
proof -
  have l: "list_all (\<lambda>q. ask zone_example q = ask zone_example_more q)
     (queries (dnsStatus_run zone_example ''example.com''))"
    by (simp add: dnsStatus_run_closed dkimSelectors_def zone_example_def
        zone_example_more_def zone_def)
  then have h: "\<forall>q \<in> set (queries (dnsStatus_run zone_example ''example.com'')).
       ask zone_example q = ask zone_example_more q"
    by (simp only: list_all_iff)
  have n: "resolveMx zone_example ''other.example.com''
       \<noteq> resolveMx zone_example_more ''other.example.com''"
    by (simp add: zone_example_def zone_example_more_def zone_def)
  show ?thesis
    using l n same_answers_same_report [OF h] by (intro conjI) (elim conjE, assumption)+
qed

text \<open>
  C2. In the service tool the verdict is pass iff the score is 100 (the whole scale),
  warn iff the score is at least 75 and below 100, and fail iff it is below 75. In the
  script, whenever it reaches its summary, the verdict is pass iff the score is 5 of 5,
  warn iff it is at least 3 and below 5, and fail iff it is below 3.
\<close>

theorem verdict_thresholds:
  "(\<exists>rep. dnsStatus dns d = Inr rep
      \<and> logged_score (dnsStatus_run dns d) \<le> 100
      \<and> (verdict rep = Pass \<longleftrightarrow> logged_score (dnsStatus_run dns d) = 100)
      \<and> (verdict rep = Warn \<longleftrightarrow>
            75 \<le> logged_score (dnsStatus_run dns d) \<and> logged_score (dnsStatus_run dns d) < 100)
      \<and> (verdict rep = Fail \<longleftrightarrow> logged_score (dnsStatus_run dns d) < 75))
   \<and> (\<forall>chk. verify_dns env = Inr chk \<longrightarrow>
          SCORE chk \<le> 5
        \<and> (summary chk = Pass \<longleftrightarrow> SCORE chk = 5)
        \<and> (summary chk = Warn \<longleftrightarrow> 3 \<le> SCORE chk \<and> SCORE chk < 5)
        \<and> (summary chk = Fail \<longleftrightarrow> SCORE chk < 3))"
proof
  have "score_of (observed dns d) \<le> 100" by (rule score_of_le)
  then show "\<exists>rep. dnsStatus dns d = Inr rep
      \<and> logged_score (dnsStatus_run dns d) \<le> 100
      \<and> (verdict rep = Pass \<longleftrightarrow> logged_score (dnsStatus_run dns d) = 100)
      \<and> (verdict rep = Warn \<longleftrightarrow>
            75 \<le> logged_score (dnsStatus_run dns d) \<and> logged_score (dnsStatus_run dns d) < 100)
      \<and> (verdict rep = Fail \<longleftrightarrow> logged_score (dnsStatus_run dns d) < 75)"
    using verdict_of_thresholds[of "score_of (observed dns d)"]
    by (auto simp: dnsStatus_def dnsStatus_run_closed)
next
  show "\<forall>chk. verify_dns env = Inr chk \<longrightarrow>
          SCORE chk \<le> 5
        \<and> (summary chk = Pass \<longleftrightarrow> SCORE chk = 5)
        \<and> (summary chk = Warn \<longleftrightarrow> 3 \<le> SCORE chk \<and> SCORE chk < 5)
        \<and> (summary chk = Fail \<longleftrightarrow> SCORE chk < 3)"
  proof (intro allI impI)
    fix chk assume "verify_dns env = Inr chk"
    then have "SCORE chk \<le> 5" and "summary chk = summary_of (SCORE chk) 5"
      using verify_dns_score by blast+
    then show "SCORE chk \<le> 5
        \<and> (summary chk = Pass \<longleftrightarrow> SCORE chk = 5)
        \<and> (summary chk = Warn \<longleftrightarrow> 3 \<le> SCORE chk \<and> SCORE chk < 5)
        \<and> (summary chk = Fail \<longleftrightarrow> SCORE chk < 3)"
      using summary_of_thresholds[of "SCORE chk"] by simp
  qed
qed

theorem verdict_thresholds_witness:
  "(\<exists>rep. dnsStatus zone_example ''example.com'' = Inr rep \<and> verdict rep = Pass
      \<and> logged_score (dnsStatus_run zone_example ''example.com'') = 100)
   \<and> (\<exists>chk. verify_dns env_spf_foo = Inr chk \<and> SCORE chk = 1 \<and> summary chk = Fail)"
proof -
  have s: "logged_score (dnsStatus_run zone_example ''example.com'') = 100"
    by (simp add: run_eval zone_example_def)
  obtain chk where c: "verify_dns env_spf_foo = Inr chk" "SCORE chk = 1"
    by (simp add: script_eval env_spf_foo_def txt_line_def)
  from verdict_thresholds [of zone_example "''example.com''" env_spf_foo] s c
  show ?thesis by auto
qed

text \<open>
  C6, as the code has it. In the service tool the SPF check selects the first TXT
  record whose joined value starts with \<^verbatim>\<open>v=spf1\<close>, and SPF is present iff there is
  such a record; the service tool has no plausibility sub-check. In the script every
  line of the TXT output that contains \<^verbatim>\<open>v=spf1\<close> anywhere is kept, and SPF is present
  iff there is such a line; whether a kept line contains one of \<^verbatim>\<open>include:\<close>,
  \<^verbatim>\<open>a:\<close>, \<^verbatim>\<open>mx\<close>, \<^verbatim>\<open>ip4:\<close>, \<^verbatim>\<open>ip6:\<close> decides the plausibility sub-check
  only, which is made exactly when SPF is present.
\<close>

theorem spf_selection:
  "(\<exists>rep. dnsStatus dns d = Inr rep
      \<and> (\<forall>v. spf rep = Some v \<longleftrightarrow>
            (\<exists>recs i. resolveTxt dns d = Inr recs \<and> i < length recs \<and> v = concat (recs ! i)
               \<and> prefix ''v=spf1'' v \<and> (\<forall>j<i. \<not> prefix ''v=spf1'' (concat (recs ! j)))))
      \<and> (truthy (spf rep) \<longleftrightarrow>
            (\<exists>recs. resolveTxt dns d = Inr recs
               \<and> (\<exists>rec \<in> set recs. prefix ''v=spf1'' (concat rec)))))
   \<and> (\<forall>chk. verify_dns env = Inr chk \<longrightarrow>
          SPF_RESULT chk = filter (sublist ''v=spf1'') (dig_TXT env DOMAIN)
        \<and> (nonempty (SPF_RESULT chk) \<longleftrightarrow> (\<exists>l \<in> set (dig_TXT env DOMAIN). sublist ''v=spf1'' l))
        \<and> (spf_valid chk = None \<longleftrightarrow> \<not> nonempty (SPF_RESULT chk))
        \<and> (spf_valid chk = Some True \<longleftrightarrow>
              (\<exists>l \<in> set (SPF_RESULT chk).
                 \<exists>m \<in> {''include:'', ''a:'', ''mx'', ''ip4:'', ''ip6:''}. sublist m l)))"
proof
  let ?rep = "(observed dns d)\<lparr>verdict := verdict_of (score_of (observed dns d))\<rparr>"
  have r: "dnsStatus dns d = Inr ?rep"
    by (simp add: dnsStatus_def dnsStatus_run_closed)
  have s: "spf ?rep = txt_hit ''v=spf1'' dns d"
    by (simp add: observed_def)
  have a: "\<forall>v. txt_hit ''v=spf1'' dns d = Some v \<longleftrightarrow>
            (\<exists>recs i. resolveTxt dns d = Inr recs \<and> i < length recs \<and> v = concat (recs ! i)
               \<and> prefix ''v=spf1'' v \<and> (\<forall>j<i. \<not> prefix ''v=spf1'' (concat (recs ! j))))"
    by (rule allI) (rule txt_hit_Some_iff)
  have b: "truthy (txt_hit ''v=spf1'' dns d) \<longleftrightarrow>
            (\<exists>recs. resolveTxt dns d = Inr recs
               \<and> (\<exists>rec \<in> set recs. prefix ''v=spf1'' (concat rec)))"
    using txt_hit_truthy[of "''v=spf1''" dns d] txt_hit_present[of "''v=spf1''" dns d] by simp
  show "\<exists>rep. dnsStatus dns d = Inr rep
      \<and> (\<forall>v. spf rep = Some v \<longleftrightarrow>
            (\<exists>recs i. resolveTxt dns d = Inr recs \<and> i < length recs \<and> v = concat (recs ! i)
               \<and> prefix ''v=spf1'' v \<and> (\<forall>j<i. \<not> prefix ''v=spf1'' (concat (recs ! j)))))
      \<and> (truthy (spf rep) \<longleftrightarrow>
            (\<exists>recs. resolveTxt dns d = Inr recs
               \<and> (\<exists>rec \<in> set recs. prefix ''v=spf1'' (concat rec))))"
  proof (intro exI[of _ ?rep] conjI)
    show "dnsStatus dns d = Inr ?rep" by (rule r)
    show "\<forall>v. spf ?rep = Some v \<longleftrightarrow>
            (\<exists>recs i. resolveTxt dns d = Inr recs \<and> i < length recs \<and> v = concat (recs ! i)
               \<and> prefix ''v=spf1'' v \<and> (\<forall>j<i. \<not> prefix ''v=spf1'' (concat (recs ! j))))"
      by (simp only: s) (rule a)
    show "truthy (spf ?rep) \<longleftrightarrow>
            (\<exists>recs. resolveTxt dns d = Inr recs
               \<and> (\<exists>rec \<in> set recs. prefix ''v=spf1'' (concat rec)))"
      by (simp only: s) (rule b)
  qed
next
  show "\<forall>chk. verify_dns env = Inr chk \<longrightarrow>
          SPF_RESULT chk = filter (sublist ''v=spf1'') (dig_TXT env DOMAIN)
        \<and> (nonempty (SPF_RESULT chk) \<longleftrightarrow> (\<exists>l \<in> set (dig_TXT env DOMAIN). sublist ''v=spf1'' l))
        \<and> (spf_valid chk = None \<longleftrightarrow> \<not> nonempty (SPF_RESULT chk))
        \<and> (spf_valid chk = Some True \<longleftrightarrow>
              (\<exists>l \<in> set (SPF_RESULT chk).
                 \<exists>m \<in> {''include:'', ''a:'', ''mx'', ''ip4:'', ''ip6:''}. sublist m l))"
  proof (intro allI impI)
    fix chk assume v: "verify_dns env = Inr chk"
    have g: "grep [''v=spf1''] ls = filter (sublist ''v=spf1'') ls" for ls
      by (simp add: grep_def grep_line_literal)
    have q: "grep_q [''v=spf1''] ls \<longleftrightarrow> (\<exists>l \<in> set ls. sublist ''v=spf1'' l)" for ls
      by (simp add: grep_q_def list_ex_iff grep_line_literal)
    have m: "grep_q [''include:'', ''a:'', ''mx'', ''ip4:'', ''ip6:''] ls \<longleftrightarrow>
        (\<exists>l \<in> set ls. \<exists>m \<in> {''include:'', ''a:'', ''mx'', ''ip4:'', ''ip6:''}. sublist m l)" for ls
      by (simp add: grep_q_def list_ex_iff grep_line_literal)
    have 1: "SPF_RESULT chk = filter (sublist ''v=spf1'') (dig_TXT env DOMAIN)"
      using verify_dns_spf(1)[OF v] by (simp only: g)
    have 2: "nonempty (SPF_RESULT chk) \<longleftrightarrow> (\<exists>l \<in> set (dig_TXT env DOMAIN). sublist ''v=spf1'' l)"
      using nonempty_grep[of "[''v=spf1'']" "dig_TXT env DOMAIN"] verify_dns_spf(1)[OF v]
      by (simp add: q)
    have 3: "spf_valid chk = None \<longleftrightarrow> \<not> nonempty (SPF_RESULT chk)"
      by (simp add: verify_dns_spf(2)[OF v])
    have n: "nonempty ls" if "grep_q [''include:'', ''a:'', ''mx'', ''ip4:'', ''ip6:''] ls" for ls
      using that nonempty_grep[of "[''include:'', ''a:'', ''mx'', ''ip4:'', ''ip6:'']" ls]
      by (auto simp: grep_def nonempty_def list_ex_iff)
    have 4: "spf_valid chk = Some True \<longleftrightarrow>
              (\<exists>l \<in> set (SPF_RESULT chk).
                 \<exists>m \<in> {''include:'', ''a:'', ''mx'', ''ip4:'', ''ip6:''}. sublist m l)"
      unfolding m[symmetric] using n[of "SPF_RESULT chk"] by (auto simp: verify_dns_spf(2)[OF v])
    from 1 2 3 4 show "SPF_RESULT chk = filter (sublist ''v=spf1'') (dig_TXT env DOMAIN)
        \<and> (nonempty (SPF_RESULT chk) \<longleftrightarrow> (\<exists>l \<in> set (dig_TXT env DOMAIN). sublist ''v=spf1'' l))
        \<and> (spf_valid chk = None \<longleftrightarrow> \<not> nonempty (SPF_RESULT chk))
        \<and> (spf_valid chk = Some True \<longleftrightarrow>
              (\<exists>l \<in> set (SPF_RESULT chk).
                 \<exists>m \<in> {''include:'', ''a:'', ''mx'', ''ip4:'', ''ip6:''}. sublist m l))"
      by (intro conjI)
  qed
qed


theorem spf_selection_witness:
  "(\<exists>rep. dnsStatus zone_example ''example.com'' = Inr rep \<and> truthy (spf rep))
   \<and> (\<exists>chk. verify_dns env_spf_foo = Inr chk \<and> spf_valid chk = Some False
         \<and> nonempty (SPF_RESULT chk))
   \<and> (\<exists>chk. verify_dns env_mailhero = Inr chk \<and> spf_valid chk = Some True
         \<and> nonempty (SPF_RESULT chk))"
proof (intro conjI)
  have z: "\<exists>recs. resolveTxt zone_example ''example.com'' = Inr recs
             \<and> (\<exists>rec \<in> set recs. prefix ''v=spf1'' (concat rec))"
    by (simp add: zone_example_def zone_def)
  from spf_selection [of zone_example "''example.com''" env_spf_foo, THEN conjunct1]
  obtain rep where r: "dnsStatus zone_example ''example.com'' = Inr rep"
    and t: "truthy (spf rep) \<longleftrightarrow>
      (\<exists>recs. resolveTxt zone_example ''example.com'' = Inr recs
         \<and> (\<exists>rec \<in> set recs. prefix ''v=spf1'' (concat rec)))"
    by (elim exE conjE) (rule that)
  from t z have "truthy (spf rep)" by (rule iffD2)
  with r show "\<exists>rep. dnsStatus zone_example ''example.com'' = Inr rep \<and> truthy (spf rep)"
    by (intro exI[of _ rep] conjI)
next
  obtain c where c: "verify_dns env_spf_foo = Inr c" and v: "spf_valid c = Some False"
    by (simp add: script_eval env_spf_foo_def txt_line_def)
  from spf_selection [of zone_example "''example.com''" env_spf_foo, THEN conjunct2,
      rule_format, OF c]
  have "spf_valid c = None \<longleftrightarrow> \<not> nonempty (SPF_RESULT c)" by (elim conjE)
  with v have "nonempty (SPF_RESULT c)" by simp
  with c v show "\<exists>chk. verify_dns env_spf_foo = Inr chk \<and> spf_valid chk = Some False
         \<and> nonempty (SPF_RESULT chk)"
    by (intro exI[of _ c] conjI)
next
  obtain c where c: "verify_dns env_mailhero = Inr c" and v: "spf_valid c = Some True"
    by (simp add: script_eval env_mailhero_def mx_line_def txt_line_def)
  from spf_selection [of zone_example "''example.com''" env_mailhero, THEN conjunct2,
      rule_format, OF c]
  have "spf_valid c = None \<longleftrightarrow> \<not> nonempty (SPF_RESULT c)" by (elim conjE)
  with v have "nonempty (SPF_RESULT c)" by simp
  with c v show "\<exists>chk. verify_dns env_mailhero = Inr chk \<and> spf_valid chk = Some True
         \<and> nonempty (SPF_RESULT chk)"
    by (intro exI[of _ c] conjI)
qed

text \<open>
  C6 as stated fails on the script. A TXT value that carries \<^verbatim>\<open>v=spf1\<close> after a
  leading space does not start with the prefix, so no entry is selected in the stated
  sense; the script nevertheless keeps its line, reports SPF as found and counts it in
  the score.
\<close>

theorem spf_prefix_counterexample:
  "dig_TXT env_spf_shifted DOMAIN = [txt_line '' v=spf1 mx -all'']
   \<and> verify_dns env_spf_shifted =
     Inr \<lparr>MX_RESULT = [], mx_listed = None, A_RESULT = [],
          SPF_RESULT = [txt_line '' v=spf1 mx -all''], spf_valid = Some True,
          DKIM_FOUND = False, DMARC_RESULT = [], dmarc_enforced = None,
          SCORE = 1, summary = Fail\<rparr>
   \<and> nonempty [txt_line '' v=spf1 mx -all'']
   \<and> spec_spf_select ['' v=spf1 mx -all''] = None"
  by (simp add: script_eval env_spf_shifted_def txt_line_def spec_spf_select_def)

text \<open>
  C9, as the code has it. Whatever the domain and whatever the resolver answers,
  \<^verbatim>\<open>dnsStatus\<close> returns a report whose verdict is pass, warn or fail (the initial
  \<^verbatim>\<open>'unknown'\<close> has been overwritten). The report carries no score: the score is a
  local variable that the function only logs, and that logged score is one of 0, 25,
  50, 75, 100.
\<close>

theorem dnsStatus_verdict_and_score_range:
  "\<exists>rep. dnsStatus dns d = Inr rep \<and> verdict rep \<in> {Pass, Warn, Fail} \<and> verdict rep \<noteq> Unknown
     \<and> property rep ''verdict'' \<in> {Some (JString ''pass''), Some (JString ''warn''),
                                    Some (JString ''fail'')}
     \<and> property rep ''score'' = None
     \<and> logged_score (dnsStatus_run dns d) \<in> {0, 25, 50, 75, 100}"
  using score_of_range[of "observed dns d"] verdict_of_known[of "score_of (observed dns d)"]
  by (auto simp add: dnsStatus_def dnsStatus_run_closed property_score property_verdict)

theorem dnsStatus_verdict_and_score_range_witness:
  "\<exists>rep. dnsStatus zone_example ''example.com'' = Inr rep \<and> verdict rep \<in> {Pass, Warn, Fail}
     \<and> verdict rep \<noteq> Unknown
     \<and> property rep ''verdict'' \<in> {Some (JString ''pass''), Some (JString ''warn''),
                                    Some (JString ''fail'')}
     \<and> property rep ''score'' = None
     \<and> logged_score (dnsStatus_run zone_example ''example.com'') \<in> {0, 25, 50, 75, 100}"
  using dnsStatus_verdict_and_score_range [of zone_example "''example.com''"] .

text \<open>
  C9 as stated fails: it gives the returned report a score. On the example zone the
  report is the object below, reading its \<^verbatim>\<open>score\<close> property gives nothing, and the
  100 the run computed is in the log only.
\<close>

theorem report_score_counterexample:
  "dnsStatus zone_example ''example.com'' =
     Inr \<lparr>domain = ''example.com'',
          mx = [\<lparr>exchange = ''mail.example.com'', priority = 10\<rparr>],
          spf = Some ''v=spf1 mx -all'',
          dkim = [\<lparr>selector = ''s1'', txtVal = ''v=DKIM1; k=rsa; p=AAAB''\<rparr>,
                  \<lparr>selector = ''selector1'', txtVal = ''k=rsa; v=DKIM1; p=AAAC''\<rparr>],
          dmarc = Some ''v=DMARC1; p=quarantine;'', verdict = Pass\<rparr>
   \<and> map_sum id (\<lambda>rep. property rep ''score'') (dnsStatus zone_example ''example.com'') = Inr None
   \<and> logged_score (dnsStatus_run zone_example ''example.com'') = 100"
  by (simp add: run_eval zone_example_def property_def)

text \<open>
  C3, as the code has it. When every resolution the engine makes for a domain either
  rejects or resolves to no records (whatever the resolver knows about other names),
  \<^verbatim>\<open>dnsStatus\<close> still returns a report; in it \<^verbatim>\<open>mx\<close> and \<^verbatim>\<open>dkim\<close> are empty,
  \<^verbatim>\<open>spf\<close> and \<^verbatim>\<open>dmarc\<close> are null and the verdict is fail. The report carries no
  score; the score the run computes and logs is 0.
\<close>

theorem no_records_report:
  assumes "\<forall>q \<in> set (queries (dnsStatus_run dns d)). no_records (ask dns q)"
  shows "\<exists>rep. dnsStatus dns d = Inr rep \<and> mx rep = [] \<and> spf rep = None \<and> dkim rep = []
           \<and> dmarc rep = None \<and> verdict rep = Fail \<and> property rep ''score'' = None
           \<and> logged_score (dnsStatus_run dns d) = 0"
proof -
  from assms have a: "\<forall>q \<in> set ([MxQuery d, TxtQuery d]
                @ map (\<lambda>sel. TxtQuery (sel @ ''._domainkey.'' @ d)) dkimSelectors
                @ [TxtQuery (''_dmarc.'' @ d)]). no_records (ask dns q)"
    by (simp add: dnsStatus_run_closed)
  have m: "mx_hit dns d = []"
    using a[rule_format, of "MxQuery d"] by (cases "resolveMx dns d") (simp_all add: mx_hit_def)
  have t: "txt_hit tag dns n = None" if "no_records (ask dns (TxtQuery n))" for tag n
    using that by (cases "resolveTxt dns n") (simp_all add: txt_hit_def)
  have s: "txt_hit ''v=spf1'' dns d = None"
    using a[rule_format, of "TxtQuery d"] by (intro t) simp
  have dm: "txt_hit ''v=DMARC1'' dns (''_dmarc.'' @ d) = None"
    using a[rule_format, of "TxtQuery (''_dmarc.'' @ d)"] by (intro t) simp
  have k: "dkim_hit dns d sel = []" if "sel \<in> set dkimSelectors" for sel
  proof -
    from that have "no_records (ask dns (TxtQuery (sel @ ''._domainkey.'' @ d)))"
      using a[rule_format, of "TxtQuery (sel @ ''._domainkey.'' @ d)"] by auto
    then show ?thesis
      by (cases "resolveTxt dns (sel @ ''._domainkey.'' @ d)") (simp_all add: dkim_hit_def)
  qed
  have "map (dkim_hit dns d) dkimSelectors = map (\<lambda>sel. []) dkimSelectors"
    by (intro map_cong refl k)
  then have ks: "concat (map (dkim_hit dns d) dkimSelectors) = []"
    by simp
  have o: "observed dns d =
      \<lparr>domain = d, mx = [], spf = None, dkim = [], dmarc = None, verdict = Unknown\<rparr>"
    by (simp only: observed_def m s dm ks)
  show ?thesis
    by (simp add: dnsStatus_def dnsStatus_run_closed o score_of_def verdict_of_def property_def)
qed

theorem no_records_report_witness:
  "list_all (\<lambda>q. no_records (ask zone_example q))
     (queries (dnsStatus_run zone_example ''nothing.test''))
   \<and> resolveTxt zone_example ''example.com'' \<noteq> Inl ENOTFOUND
   \<and> (\<exists>rep. dnsStatus zone_example ''nothing.test'' = Inr rep \<and> mx rep = [] \<and> spf rep = None
         \<and> dkim rep = [] \<and> dmarc rep = None \<and> verdict rep = Fail
         \<and> property rep ''score'' = None
         \<and> logged_score (dnsStatus_run zone_example ''nothing.test'') = 0)"
proof -
  have l: "list_all (\<lambda>q. no_records (ask zone_example q))
     (queries (dnsStatus_run zone_example ''nothing.test''))"
    by (simp add: dnsStatus_run_closed dkimSelectors_def zone_example_def zone_def)
  then have h: "\<forall>q \<in> set (queries (dnsStatus_run zone_example ''nothing.test'')).
      no_records (ask zone_example q)"
    by (simp only: list_all_iff)
  have n: "resolveTxt zone_example ''example.com'' \<noteq> Inl ENOTFOUND"
    by (simp add: zone_example_def zone_def)
  show ?thesis
    using l n no_records_report [OF h] by (intro conjI)
qed

text \<open>
  C3 as stated fails in one point: it places the score in the report. For a domain
  none of whose resolutions gives a record, the returned report is the object below, and
  reading its \<^verbatim>\<open>score\<close> property gives nothing.
\<close>

theorem no_records_score_counterexample:
  "list_all (\<lambda>q. no_records (ask zone_none q)) (queries (dnsStatus_run zone_none ''example.com''))
   \<and> dnsStatus zone_none ''example.com'' =
     Inr \<lparr>domain = ''example.com'', mx = [], spf = None, dkim = [], dmarc = None,
          verdict = Fail\<rparr>
   \<and> map_sum id (\<lambda>rep. property rep ''score'') (dnsStatus zone_none ''example.com'') = Inr None"
  by (simp add: run_eval zone_none_def property_def)

text \<open>
  C8. The script announces its MX sub-check as "Check if our mail server is in MX
  records" (line 38) and reports "found in MX records" or "not found in MX records";
  the claim reads this as: some returned exchange equals the mail server's name, up to
  letter case and a trailing dot. The script's test, \<^verbatim>\<open>grep -q "$MAIL_SERVER"\<close> on the
  raw output, does not decide that. For the exchange \<^verbatim>\<open>MAIL.MAILHERO.IN.\<close>, which is
  the mail server, it reports not found; for \<^verbatim>\<open>mail.mailhero.in.example.net.\<close> and for
  \<^verbatim>\<open>mailXmailhero-in.\<close>, which are other hosts, it reports found (the last one because
  the unescaped dots of the name match any character).
\<close>

theorem mx_listed_misses_expectation:
  "dig_MX env_mx_upper DOMAIN = [mx_line ''10'' ''MAIL.MAILHERO.IN.'']
   \<and> map_sum id mx_listed (verify_dns env_mx_upper) = Inr (Some False)
   \<and> spec_mx_matches [''MAIL.MAILHERO.IN.''] MAIL_SERVER
   \<and> dig_MX env_mx_longer DOMAIN = [mx_line ''10'' ''mail.mailhero.in.example.net.'']
   \<and> map_sum id mx_listed (verify_dns env_mx_longer) = Inr (Some True)
   \<and> \<not> spec_mx_matches [''mail.mailhero.in.example.net.''] MAIL_SERVER
   \<and> dig_MX env_mx_wildcard DOMAIN = [mx_line ''10'' ''mailXmailhero-in.'']
   \<and> map_sum id mx_listed (verify_dns env_mx_wildcard) = Inr (Some True)
   \<and> \<not> spec_mx_matches [''mailXmailhero-in.''] MAIL_SERVER"
  by (simp add: script_eval env_mx_upper_def env_mx_longer_def env_mx_wildcard_def mx_line_def
      spec_mx_matches_def strip_dot_def lower_char_def)


end
